theory Spec2Isabelle
  imports Main "HOL-Library.AList"
begin

section \<open>Documents, Python truthiness and exceptions\<close>

text \<open>
  The helpers of \<^verbatim>\<open>cimiutils.py\<close> work on parsed documents: nested Python
  dictionaries with string keys, lists and scalars. A document is a tree, so it is a
  value of the datatype \<open>json\<close>; a dictionary is an association list, read by
  \<open>map_of\<close> (the first binding of a key) and iterated in list order. \<open>JNull\<close> is
  Python's \<open>None\<close>. Numbers are integers.

  The Python functions mutate their first argument in place and return nothing; here
  they return the document after the call. An exception is the left injection of the
  result. The documents given to one call are trees of their own: a source that shares
  an object with the target is not modelled. A value copied from one document into
  another is, in Python, the same object in both; a tree value has no identity, so
  the sharing shows as equality.

  A Python 2 dictionary iterates in an arbitrary order. The order of the association
  list stands for it, and every theorem holds for every order.
\<close>

datatype json =
    JNull
  | JBool bool
  | JNum int
  | JStr string
  | JList "json list"
  | JDict "(string \<times> json) list"

datatype error = AttributeError | TypeError | ValueError | TransportError

text \<open>\<^verbatim>\<open>if value:\<close> -- Python's truth value of an object.\<close>

fun truthy :: "json \<Rightarrow> bool" where
  "truthy JNull = False"
| "truthy (JBool b) = b"
| "truthy (JNum n) = (n \<noteq> 0)"
| "truthy (JStr s) = (s \<noteq> [])"
| "truthy (JList xs) = (xs \<noteq> [])"
| "truthy (JDict kvs) = (kvs \<noteq> [])"

text \<open>\<^verbatim>\<open>d.get(k)\<close> on a dictionary: the value, or \<open>None\<close> for a missing key.\<close>

definition dict_get :: "(string \<times> json) list \<Rightarrow> string \<Rightarrow> json" where
  "dict_get kvs k = (case map_of kvs k of Some v \<Rightarrow> v | None \<Rightarrow> JNull)"

text \<open>\<^verbatim>\<open>d[k] = v\<close> on a dictionary: the binding of \<open>k\<close> is replaced, or added.\<close>

definition dict_set :: "string \<Rightarrow> json \<Rightarrow> (string \<times> json) list \<Rightarrow> (string \<times> json) list" where
  "dict_set k v kvs = AList.update k v kvs"

text \<open>\<^verbatim>\<open>d.pop(k)\<close> for a key that is present: no binding of \<open>k\<close> is left.\<close>

definition dict_pop :: "string \<Rightarrow> (string \<times> json) list \<Rightarrow> (string \<times> json) list" where
  "dict_pop k kvs = filter (\<lambda>kv. fst kv \<noteq> k) kvs"

text \<open>
  \<^verbatim>\<open>obj.get(key)\<close> on any object: only a dictionary has the method. The keys that
  reach it are the object's own (from \<^verbatim>\<open>for key in obj\<close>), so they are strings when
  the object is a dictionary; a list or dictionary as key is unhashable.
\<close>

fun py_get :: "json \<Rightarrow> json \<Rightarrow> error + json" where
  "py_get (JDict kvs) (JStr k) = Inr (dict_get kvs k)"
| "py_get (JDict kvs) (JList xs) = Inl TypeError"
| "py_get (JDict kvs) (JDict ys) = Inl TypeError"
| "py_get (JDict kvs) key = Inr JNull"
| "py_get obj key = Inl AttributeError"

text \<open>
  \<^verbatim>\<open>obj[key] = v\<close> with a string key: only a dictionary takes it. \<open>None\<close>, numbers
  and strings support no item assignment and a list wants an integer index: each
  raises \<open>TypeError\<close>.
\<close>

fun py_setitem :: "json \<Rightarrow> string \<Rightarrow> json \<Rightarrow> error + json" where
  "py_setitem (JDict kvs) k v = Inr (JDict (dict_set k v kvs))"
| "py_setitem obj k v = Inl TypeError"

text \<open>
  \<^verbatim>\<open>for key in obj\<close>: the keys of a dictionary, the elements of a list, the
  characters of a string; anything else is not iterable.
\<close>

fun iter_keys :: "json \<Rightarrow> error + json list" where
  "iter_keys (JDict kvs) = Inr (map (\<lambda>kv. JStr (fst kv)) kvs)"
| "iter_keys (JList xs) = Inr xs"
| "iter_keys (JStr s) = Inr (map (\<lambda>c. JStr [c]) s)"
| "iter_keys obj = Inl TypeError"

section \<open>Paths\<close>

text \<open>\<^verbatim>\<open>key_path.strip('/')\<close> and \<^verbatim>\<open>.split('/')\<close>.\<close>

definition strip_slash :: "string \<Rightarrow> string" where
  "strip_slash s =
     rev (dropWhile (\<lambda>c. c = CHR ''/'') (rev (dropWhile (\<lambda>c. c = CHR ''/'') s)))"

fun split_slash :: "string \<Rightarrow> string list" where
  "split_slash [] = [[]]"
| "split_slash (c # cs) =
     (if c = CHR ''/'' then [] # split_slash cs
      else (c # hd (split_slash cs)) # tl (split_slash cs))"

definition path_keys :: "string \<Rightarrow> string list" where
  "path_keys key_path = split_slash (strip_slash key_path)"

section \<open>match\_up\<close>

text \<open>
  The loop of \<open>get_member\<close>:
  \<^verbatim>\<open>
  for idx in range(key_lens):
      if value:
          value = value.get(keys[idx])
      else:
          break
  \<close>
  over the keys still to follow. A node of the tree has no address of its own, so the
  loop also returns the keys it has followed from the root (\<open>loc\<close>): the place of
  the object that \<open>value\<close> refers to, which \<open>match_up\<close> writes through.
\<close>

fun descend :: "json \<Rightarrow> string list \<Rightarrow> string list \<Rightarrow> error + (json \<times> string list)" where
  "descend value [] loc = Inr (value, loc)"
| "descend value (k # ks) loc =
     (if truthy value then
        (case value of
           JDict kvs \<Rightarrow> descend (dict_get kvs k) ks (loc @ [k])
         | _ \<Rightarrow> Inl AttributeError)
      else Inr (value, loc))"

text \<open>
  \<open>get_member data key_path get_parent\<close> returns \<open>(value, mem_key)\<close> as the
  source does, and the place of \<open>value\<close>. An empty path (or \<open>None\<close>) gives
  \<open>(None, None)\<close>.
\<close>

definition get_member ::
  "json \<Rightarrow> string \<Rightarrow> bool \<Rightarrow> error + (json \<times> string option \<times> string list)" where
  "get_member data key_path get_parent =
     (if key_path \<noteq> [] then
        (let keys = path_keys key_path;
             key_lens = (if get_parent then length keys - 1 else length keys);
             mem_key = (if get_parent then Some (last keys) else None)
         in case descend data (take key_lens keys) [] of
              Inl e \<Rightarrow> Inl e
            | Inr (value, loc) \<Rightarrow> Inr (value, mem_key, loc))
      else Inr (JNull, None, []))"

text \<open>
  Writing through a reference: the document \<open>root\<close> with the node at \<open>loc\<close>
  replaced by \<open>new\<close>.
\<close>

fun put_at :: "json \<Rightarrow> string list \<Rightarrow> json \<Rightarrow> json" where
  "put_at root [] new = new"
| "put_at (JDict kvs) (k # ks) new =
     (case map_of kvs k of
        Some child \<Rightarrow> JDict (dict_set k (put_at child ks new) kvs)
      | None \<Rightarrow> JDict kvs)"
| "put_at root (k # ks) new = root"

text \<open>
  \<^verbatim>\<open>
  data, key = get_member(data_to, key_to, True)
  if key:
      data[key] = get_member(data_from, key_from, False)[0]
  \<close>
  The right-hand side is evaluated before the item assignment. The result is the pair
  of both documents after the call.
\<close>

definition match_up :: "json \<Rightarrow> json \<Rightarrow> string \<Rightarrow> string \<Rightarrow> error + (json \<times> json)" where
  "match_up data_to data_from key_to key_from =
     (case get_member data_to key_to True of
        Inl e \<Rightarrow> Inl e
      | Inr (data, key, loc) \<Rightarrow>
          (case key of
             None \<Rightarrow> Inr (data_to, data_from)
           | Some k \<Rightarrow>
               if k \<noteq> [] then
                 (case get_member data_from key_from False of
                    Inl e \<Rightarrow> Inl e
                  | Inr (v, _, _) \<Rightarrow>
                      (case py_setitem data k v of
                         Inl e \<Rightarrow> Inl e
                       | Inr data' \<Rightarrow> Inr (put_at data_to loc data', data_from)))
               else Inr (data_to, data_from)))"

section \<open>match\_up\_extra\<close>

text \<open>
  \<^verbatim>\<open>
  for key in data_from:
      if key in keys_to_exclude:
          pass
      else:
          data_to[key] = data_from.get(key)
  \<close>
  \<open>keys_to_exclude\<close> is a collection of names (a list, tuple, set or the keys of a
  dictionary): membership is all the code asks of it, so it is a list of names here.
\<close>

fun key_in :: "json \<Rightarrow> string list \<Rightarrow> bool" where
  "key_in (JStr k) names = (k \<in> set names)"
| "key_in key names = False"

fun py_setitem_key :: "json \<Rightarrow> json \<Rightarrow> json \<Rightarrow> error + json" where
  "py_setitem_key obj (JStr k) v = py_setitem obj k v"
| "py_setitem_key obj key v = Inl TypeError"

fun match_up_extra_loop ::
  "json \<Rightarrow> json \<Rightarrow> string list \<Rightarrow> json list \<Rightarrow> error + json" where
  "match_up_extra_loop data_to data_from keys_to_exclude [] = Inr data_to"
| "match_up_extra_loop data_to data_from keys_to_exclude (key # rest) =
     (if key_in key keys_to_exclude then
        match_up_extra_loop data_to data_from keys_to_exclude rest
      else
        (case py_get data_from key of
           Inl e \<Rightarrow> Inl e
         | Inr v \<Rightarrow>
             (case py_setitem_key data_to key v of
                Inl e \<Rightarrow> Inl e
              | Inr data_to' \<Rightarrow>
                  match_up_extra_loop data_to' data_from keys_to_exclude rest)))"

definition match_up_extra :: "json \<Rightarrow> json \<Rightarrow> string list \<Rightarrow> error + json" where
  "match_up_extra data_to data_from keys_to_exclude =
     (case iter_keys data_from of
        Inl e \<Rightarrow> Inl e
      | Inr keys \<Rightarrow> match_up_extra_loop data_to data_from keys_to_exclude keys)"

section \<open>has\_extra\<close>

text \<open>
  \<^verbatim>\<open>
  for key in data_from:
      exclude_keys = keys_to_exclude.keys()
      if key in exclude_keys:
          value = keys_to_exclude.get(key)
          if value:
              if has_extra(data_from.get(key), value):
                  return True
      else:
          return True
  return False
  \<close>
  \<open>keys()\<close> is called in the loop body, so an object without that method raises
  only when \<open>data_from\<close> has a key to visit. \<open>has_extra_loop\<close> is the loop over
  the keys still to visit.
\<close>

lemma size_map_of [termination_simp]:
  "map_of ex k = Some v \<Longrightarrow> size v < Suc (size_list (size_prod (\<lambda>_. 0) size) ex)"
  by (induction ex) (auto split: if_splits)

function has_extra :: "json \<Rightarrow> json \<Rightarrow> error + bool"
  and has_extra_loop :: "json \<Rightarrow> json \<Rightarrow> json list \<Rightarrow> error + bool" where
  "has_extra data_from keys_to_exclude =
     (case iter_keys data_from of
        Inl e \<Rightarrow> Inl e
      | Inr keys \<Rightarrow> has_extra_loop data_from keys_to_exclude keys)"
| "has_extra_loop data_from keys_to_exclude [] = Inr False"
| "has_extra_loop data_from keys_to_exclude (key # rest) =
     (case keys_to_exclude of
        JDict ex \<Rightarrow>
          (case key of
             JStr k \<Rightarrow>
               (case map_of ex k of
                  Some value \<Rightarrow>
                    if truthy value then
                      (case py_get data_from key of
                         Inl e \<Rightarrow> Inl e
                       | Inr sub \<Rightarrow>
                           (case has_extra sub value of
                              Inl e \<Rightarrow> Inl e
                            | Inr found \<Rightarrow>
                                if found then Inr True
                                else has_extra_loop data_from keys_to_exclude rest))
                    else has_extra_loop data_from keys_to_exclude rest
                | None \<Rightarrow> Inr True)
           | _ \<Rightarrow> Inr True)
      | _ \<Rightarrow> Inl AttributeError)"
  by pat_completeness auto
termination
  by (relation "inv_image (less_than <*lex*> less_than)
        (\<lambda>x. case x of
           Inl (d, e) \<Rightarrow> (size e, Suc (case iter_keys d of Inr ks \<Rightarrow> length ks | Inl _ \<Rightarrow> 0))
         | Inr (d, e, ks) \<Rightarrow> (size e, length ks))")
     (auto simp: size_map_of)

declare has_extra.simps [simp del]

section \<open>remove\_member\<close>

text \<open>
  \<^verbatim>\<open>
  if isinstance(data, dict):
      if member in data.keys():
          data.pop(member)
      for key in data:
          remove_member(data.get(key), member)
  elif isinstance(data, list):
      for one in data:
          remove_member(one, member)
  \<close>
  The member is popped first; the loop then visits the entries that are left.
\<close>

lemma size_dict_pop [termination_simp]:
  "(a, b) \<in> set (dict_pop member kvs) \<Longrightarrow> size b < Suc (size_list (\<lambda>x. Suc (size (snd x))) kvs)"
  by (induction kvs) (auto simp: dict_pop_def split: if_splits)


section \<open>access\_resource\<close>

text \<open>
  The inbound request that \<open>webob.Request(env)\<close> exposes, the request handed to
  \<open>conn.request\<close>, and the response object of \<open>conn.getresponse()\<close>. A response
  holds its status, its parsed headers (\<open>msg\<close>: \<open>getheaders()\<close> lists them,
  \<open>getheader(name)\<close> looks one up; the library keeps the names in lower case) and the
  body bytes it can still deliver (\<open>stream\<close>).
\<close>

record environ =
  scheme :: string
  server_name :: string
  server_port :: string
  env_path :: string
  env_headers :: "(string \<times> string) list"

record http_request =
  rq_ssl :: bool
  rq_host :: string
  rq_port :: string
  rq_method :: string
  rq_path :: string
  rq_body :: "string option"
  rq_headers :: "(string \<times> string) list"

record http_response =
  status :: int
  msg :: "(string \<times> string) list"
  stream :: string

text \<open>
  What the call did to the connection: whether it closed it, and the \<open>res.read\<close>
  calls it made, each with its argument (\<open>None\<close> for \<open>read()\<close>).
\<close>

record conn_log =
  closed :: bool
  reads :: "int option list"

text \<open>\<open>str.lower\<close> on ASCII letters.\<close>

definition lower_char :: "char \<Rightarrow> char" where
  "lower_char c =
     (let n = (of_char c :: nat) in if 65 \<le> n \<and> n \<le> 90 then char_of (n + 32) else c)"

definition lower :: "string \<Rightarrow> string" where
  "lower s = map lower_char s"

text \<open>
  \<open>int(s)\<close> on a string: surrounding white space is dropped, then an optional sign
  and at least one decimal digit; anything else raises \<open>ValueError\<close> (\<open>None\<close>
  here).
\<close>

definition is_space :: "char \<Rightarrow> bool" where
  "is_space c = ((of_char c :: nat) \<in> {32, 9, 10, 11, 12, 13})"

definition digit_val :: "char \<Rightarrow> nat option" where
  "digit_val c =
     (let n = (of_char c :: nat) in if 48 \<le> n \<and> n \<le> 57 then Some (n - 48) else None)"

fun digits_val :: "string \<Rightarrow> nat \<Rightarrow> nat option" where
  "digits_val [] acc = Some acc"
| "digits_val (c # cs) acc =
     (case digit_val c of None \<Rightarrow> None | Some d \<Rightarrow> digits_val cs (10 * acc + d))"

definition py_int :: "string \<Rightarrow> int option" where
  "py_int s =
     (case rev (dropWhile is_space (rev (dropWhile is_space s))) of
        [] \<Rightarrow> None
      | c # cs \<Rightarrow>
          if c = CHR ''-'' then
            (if cs = [] then None else map_option (\<lambda>n. - int n) (digits_val cs 0))
          else if c = CHR ''+'' then
            (if cs = [] then None else map_option int (digits_val cs 0))
          else map_option int (digits_val (c # cs) 0))"

text \<open>
  \<open>res.read(amt)\<close>: at most \<open>amt\<close> bytes of what the response can deliver, all of
  it for a negative \<open>amt\<close>; \<open>res.read()\<close> delivers all of it.
\<close>

definition read_amt :: "int \<Rightarrow> string \<Rightarrow> string" where
  "read_amt amt s = (if amt < 0 then s else take (nat amt) s)"

text \<open>
  \<^verbatim>\<open>
  values = {}
  header_list = res.getheaders()
  for header in header_list:
      values[header[0]] = header[1]
  \<close>
\<close>

definition collect_headers :: "(string \<times> string) list \<Rightarrow> (string \<times> string) list" where
  "collect_headers header_list =
     fold (\<lambda>header values. AList.update (fst header) (snd header) values) header_list []"

text \<open>
  The request that leaves \<open>access_resource\<close>: \<open>Accept\<close> is set first and the
  inbound headers are copied over it; an omitted method is \<open>GET\<close>, an omitted path
  the inbound path.
\<close>

definition build_request ::
  "environ \<Rightarrow> string \<Rightarrow> string \<Rightarrow> string option \<Rightarrow> http_request" where
  "build_request env method path body =
     \<lparr> rq_ssl = (lower (scheme env) = ''https''),
       rq_host = server_name env,
       rq_port = server_port env,
       rq_method = (if method = [] then ''GET'' else method),
       rq_path = (if path = [] then env_path env else path),
       rq_body = body,
       rq_headers =
         fold (\<lambda>hv headers. AList.update (fst hv) (snd hv) headers) (env_headers env)
           [(''Accept'', ''application/json'')] \<rparr>"

text \<open>
  \<open>access_resource\<close>. The backend is a parameter: what \<open>conn.request\<close> followed
  by \<open>conn.getresponse()\<close> gives for a request, a response or a transport failure,
  which the function does not catch. The result is the returned tuple
  \<open>(exists, headers, body, status)\<close> and the log of the connection.
\<close>

definition access_resource ::
  "(http_request \<Rightarrow> error + http_response) \<Rightarrow> environ \<Rightarrow> string \<Rightarrow> string \<Rightarrow> bool \<Rightarrow>
     string option \<Rightarrow> string option \<Rightarrow>
     error + ((bool \<times> (string \<times> string) list \<times> string option \<times> int) \<times> conn_log)" where
  "access_resource backend env method path get_body query_string body =
     (case backend (build_request env method path body) of
        Inl e \<Rightarrow> Inl e
      | Inr res \<Rightarrow>
          if status res = 404 \<or> status res = 413 then
            Inr ((False, [], None, status res), \<lparr>closed = True, reads = []\<rparr>)
          else if status res = 200 \<or> status res = 204 \<or> status res = 201 then
            (let values = collect_headers (msg res) in
             if get_body then
               (case map_of (msg res) ''content-length'' of
                  Some length_hdr \<Rightarrow>
                    if length_hdr \<noteq> [] then
                      (case py_int length_hdr of
                         None \<Rightarrow> Inl ValueError
                       | Some n \<Rightarrow>
                           Inr ((True, values, Some (read_amt n (stream res)), status res),
                                \<lparr>closed = True, reads = [Some n]\<rparr>))
                    else
                      Inr ((True, values, Some (stream res), status res),
                           \<lparr>closed = True, reads = [None]\<rparr>)
                | None \<Rightarrow>
                    Inr ((True, values, Some (stream res), status res),
                         \<lparr>closed = True, reads = [None]\<rparr>))
             else
               Inr ((True, values, Some [], status res), \<lparr>closed = True, reads = []\<rparr>))
          else
            Inr ((True, collect_headers (msg res), None, status res),
                 \<lparr>closed = True, reads = []\<rparr>))"

section \<open>The vocabulary of the specification\<close>

text \<open>
  A path addresses a location of a document by repeated key lookup: \<open>resolve d ks\<close>
  is the node that the segments \<open>ks\<close> lead to from \<open>d\<close>, when every segment is a
  key of the mapping reached so far.
\<close>

fun resolve :: "json \<Rightarrow> string list \<Rightarrow> json option" where
  "resolve d [] = Some d"
| "resolve (JDict kvs) (k # ks) =
     (case map_of kvs k of Some v \<Rightarrow> resolve v ks | None \<Rightarrow> None)"
| "resolve d (k # ks) = None"

text \<open>
  The value a path addresses in a document; an empty path addresses nothing. The
  segments of a path string are the ones the code reads from it, \<open>path_keys\<close>.
\<close>

definition value_at :: "json \<Rightarrow> string \<Rightarrow> json option" where
  "value_at d key_path = (if key_path = [] then None else resolve d (path_keys key_path))"

definition or_null :: "json option \<Rightarrow> json" where
  "or_null r = (case r of Some v \<Rightarrow> v | None \<Rightarrow> JNull)"

text \<open>
  After the call \<open>r\<close>, the node at \<open>parent\<close> of the target is a mapping that binds
  \<open>key\<close> to \<open>v\<close>, and the source is the document \<open>data_from\<close> it was before.
\<close>

definition wrote ::
  "error + (json \<times> json) \<Rightarrow> json \<Rightarrow> string list \<Rightarrow> string \<Rightarrow> json \<Rightarrow> bool" where
  "wrote r data_from parent key v =
     (case r of
        Inl e \<Rightarrow> False
      | Inr (to', from') \<Rightarrow>
          from' = data_from \<and>
          (case resolve to' parent of
             Some (JDict kvs') \<Rightarrow> map_of kvs' key = Some v
           | _ \<Rightarrow> False))"

text \<open>
  A descent along \<open>ks\<close> that only ever stands on a non-empty mapping or on
  \<open>None\<close> while segments are left: it ends at the addressed value, at a missing key
  or at a \<open>None\<close>.
\<close>

fun stops_clean :: "json \<Rightarrow> string list \<Rightarrow> bool" where
  "stops_clean d [] = True"
| "stops_clean (JDict kvs) (k # ks) =
     (kvs \<noteq> [] \<and> (case map_of kvs k of Some v \<Rightarrow> stops_clean v ks | None \<Rightarrow> True))"
| "stops_clean JNull (k # ks) = True"
| "stops_clean d (k # ks) = False"

lemma size_snd_mem [termination_simp]:
  "kv \<in> set kvs \<Longrightarrow> size (snd kv) < Suc (size_list (size_prod (\<lambda>_. 0) size) kvs)"
  by (induction kvs) (auto simp: less_Suc_eq le_imp_less_Suc)


text \<open>
  The target of \<open>match_up_extra\<close> after the loop has visited the names \<open>ks\<close>
  of the source \<open>s\<close>.
\<close>

definition copied ::
  "(string \<times> json) list \<Rightarrow> string list \<Rightarrow> string list \<Rightarrow> (string \<times> json) list \<Rightarrow>
     (string \<times> json) list" where
  "copied s excl ks t =
     fold (\<lambda>k acc. if k \<in> set excl then acc else dict_set k (dict_get s k) acc) ks t"

text \<open>
  An exclusion set accounts for a document when every attribute name of the document
  is a name of the set, at every level visited. \<open>accounted_spec\<close> is the claim's
  reading: a level below an attribute is visited exactly when the entry of the
  attribute is a nested set. \<open>accounted\<close> visits it exactly when the entry is
  truthy, that is, a nested set that is not empty. A document that is no mapping has
  no attribute names.
\<close>

lemma size_map_of_snd [termination_simp]:
  "map_of ex k = Some v \<Longrightarrow> size v < Suc (size_list (\<lambda>x. Suc (size (snd x))) ex)"
  by (induction ex) (auto split: if_splits)

fun is_mapping :: "json \<Rightarrow> bool" where
  "is_mapping (JDict kvs) = True"
| "is_mapping d = False"

fun accounted_spec :: "json \<Rightarrow> json \<Rightarrow> bool" where
  "accounted_spec (JDict kvs) (JDict ex) =
     (\<forall>k \<in> set (map fst kvs).
        case map_of ex k of
          None \<Rightarrow> False
        | Some e \<Rightarrow> (is_mapping e \<longrightarrow> accounted_spec (dict_get kvs k) e))"
| "accounted_spec (JDict kvs) e = (kvs = [])"
| "accounted_spec d e = True"

fun accounted :: "json \<Rightarrow> json \<Rightarrow> bool" where
  "accounted (JDict kvs) (JDict ex) =
     (\<forall>k \<in> set (map fst kvs).
        case map_of ex k of
          None \<Rightarrow> False
        | Some e \<Rightarrow> (truthy e \<longrightarrow> accounted (dict_get kvs k) e))"
| "accounted (JDict kvs) e = (kvs = [])"
| "accounted d e = True"

text \<open>
  The source has the shape the exclusion set expects: both are mappings, and so are,
  level by level, the value of the source and the entry of the set under every
  attribute whose entry is truthy.
\<close>

fun shaped :: "json \<Rightarrow> json \<Rightarrow> bool" where
  "shaped (JDict kvs) (JDict ex) =
     (\<forall>k \<in> set (map fst kvs).
        case map_of ex k of
          None \<Rightarrow> True
        | Some e \<Rightarrow> (truthy e \<longrightarrow> shaped (dict_get kvs k) e))"
| "shaped d e = False"

text \<open>
  The \<open>content-length\<close> header of a response is one that \<open>access_resource\<close> can
  read: absent, empty, or a string that \<open>int\<close> accepts.
\<close>

definition length_readable :: "http_response \<Rightarrow> bool" where
  "length_readable res =
     (case map_of (msg res) ''content-length'' of
        None \<Rightarrow> True
      | Some s \<Rightarrow> s = [] \<or> py_int s \<noteq> None)"

section \<open>Paths and descent\<close>

lemma path_keys_Nil: "path_keys [] = [[]]"
  by (simp add: path_keys_def strip_slash_def)

lemma split_slash_ne: "split_slash s \<noteq> []"
  by (induction s) auto

lemma path_keys_ne: "path_keys p \<noteq> []"
  by (simp add: path_keys_def split_slash_ne)

text \<open>
  The number of segments is one more than the number of slashes, and the last segment
  is empty only for a path without any other character than the slash.
\<close>

lemma length_split_slash:
  "length (split_slash s) = Suc (length (filter (\<lambda>c. c = CHR ''/'') s))"
  by (induction s) (auto simp: split_slash_ne)

lemma last_split_slash:
  "last (split_slash s) = [] \<longleftrightarrow> s = [] \<or> last s = CHR ''/''"
proof (induction s)
  case Nil
  then show ?case by simp
next
  case (Cons c cs)
  show ?case
  proof (cases "c = CHR ''/''")
    case True
    with Cons show ?thesis by (auto simp: split_slash_ne)
  next
    case False
    have tl: "tl (split_slash cs) = [] \<longleftrightarrow> filter (\<lambda>c. c = CHR ''/'') cs = []"
      using length_split_slash [of cs] by (cases "split_slash cs") auto
    show ?thesis
    proof (cases "tl (split_slash cs) = []")
      case True
      with tl have "\<forall>x\<in>set cs. x \<noteq> CHR ''/''" by (simp add: filter_empty_conv)
      then have "cs \<noteq> [] \<longrightarrow> last cs \<noteq> CHR ''/''" by auto
      with True False show ?thesis by simp
    next
      case more: False
      then have "last ((c # hd (split_slash cs)) # tl (split_slash cs)) = last (split_slash cs)"
        by (cases "split_slash cs") auto
      moreover from more tl have "cs \<noteq> []" by auto
      ultimately show ?thesis using False Cons by simp
    qed
  qed
qed

lemma last_strip_slash: "strip_slash s \<noteq> [] \<Longrightarrow> last (strip_slash s) \<noteq> CHR ''/''"
  unfolding strip_slash_def
  using hd_dropWhile [of "\<lambda>c. c = CHR ''/''" "rev (dropWhile (\<lambda>c. c = CHR ''/'') s)"]
  by (simp add: last_rev)

lemma last_path_keys_Nil: "last (path_keys p) = [] \<longleftrightarrow> path_keys p = [[]]"
proof
  assume "last (path_keys p) = []"
  then have "strip_slash p = []"
    using last_strip_slash [of p] by (auto simp: path_keys_def last_split_slash)
  then show "path_keys p = [[]]" by (simp add: path_keys_def)
qed simp

lemma last_path_keys: "path_keys p = ks @ [k] \<Longrightarrow> ks \<noteq> [] \<Longrightarrow> k \<noteq> []"
  using last_path_keys_Nil [of p] by auto

lemma descend_falsy: "\<not> truthy d \<Longrightarrow> descend d ks loc = Inr (d, loc)"
  by (cases ks) auto

text \<open>Along a prefix that resolves, the loop follows every key.\<close>

lemma descend_resolve:
  "resolve d ks = Some v \<Longrightarrow> descend d (ks @ rest) loc = descend v rest (loc @ ks)"
proof (induction ks arbitrary: d loc)
  case Nil
  then show ?case by simp
next
  case (Cons k ks)
  then obtain kvs c where d: "d = JDict kvs" and c: "map_of kvs k = Some c"
    and r: "resolve c ks = Some v"
    by (cases d) (auto split: option.splits)
  from c have "kvs \<noteq> []" by auto
  with d c Cons.IH [OF r] show ?case
    by (simp add: dict_get_def)
qed

lemma descend_clean:
  "stops_clean d ks \<Longrightarrow> \<exists>l. descend d ks loc = Inr (or_null (resolve d ks), l)"
proof (induction ks arbitrary: d loc)
  case Nil
  then show ?case by (simp add: or_null_def)
next
  case (Cons k ks)
  show ?case
  proof (cases d)
    case (JDict kvs)
    with Cons.prems have ne: "kvs \<noteq> []" by simp
    show ?thesis
    proof (cases "map_of kvs k")
      case None
      with JDict ne show ?thesis
        by (simp add: dict_get_def descend_falsy or_null_def)
    next
      case (Some c)
      with JDict Cons.prems have "stops_clean c ks" by simp
      from Cons.IH [OF this, of "loc @ [k]"] JDict ne Some show ?thesis
        by (simp add: dict_get_def)
    qed
  qed (use Cons.prems in \<open>auto simp: or_null_def\<close>)
qed

lemma map_of_dict_set: "map_of (dict_set k v kvs) k = Some v"
  by (simp add: dict_set_def update_conv')

lemma resolve_put_at:
  "resolve d ks = Some old \<Longrightarrow> resolve (put_at d ks new) ks = Some new"
proof (induction ks arbitrary: d)
  case Nil
  then show ?case by simp
next
  case (Cons k ks)
  then obtain kvs c where d: "d = JDict kvs" and c: "map_of kvs k = Some c"
    and r: "resolve c ks = Some old"
    by (cases d) (auto split: option.splits)
  with Cons.IH [OF r] show ?case
    by (simp add: map_of_dict_set)
qed

lemma get_member_parent:
  assumes "resolve data (butlast (path_keys key_path)) = Some node" and "key_path \<noteq> []"
  shows "get_member data key_path True =
           Inr (node, Some (last (path_keys key_path)), butlast (path_keys key_path))"
proof -
  have "take (length (path_keys key_path) - 1) (path_keys key_path) =
          butlast (path_keys key_path)"
    by (simp add: butlast_conv_take)
  moreover have "descend data (butlast (path_keys key_path) @ []) [] =
          descend node [] ([] @ butlast (path_keys key_path))"
    using assms(1) by (rule descend_resolve)
  ultimately show ?thesis using assms(2)
    by (simp add: get_member_def Let_def)
qed

lemma get_member_value:
  assumes "key_from = [] \<or> stops_clean data (path_keys key_from)"
  shows "\<exists>l. get_member data key_from False = Inr (or_null (value_at data key_from), None, l)"
proof (cases "key_from = []")
  case True
  then show ?thesis by (simp add: get_member_def value_at_def or_null_def)
next
  case False
  with assms have "stops_clean data (path_keys key_from)" by simp
  from descend_clean [OF this, of "[]"] False show ?thesis
    by (auto simp: get_member_def value_at_def Let_def)
qed

lemmas path_eval = path_keys_def strip_slash_def
lemmas match_up_eval = match_up_def get_member_def path_eval dict_get_def dict_set_def

section \<open>Claims about match\_up\<close>

text \<open>
  Without a final key the call does nothing. With one, an intermediate segment that is
  absent from a mapping that is not empty always ends in an exception: the loop
  leaves \<open>None\<close> as the parent.
\<close>

lemma match_up_no_key:
  assumes "path_keys key_to = [[]]"
  shows "match_up data_to data_from key_to key_from = Inr (data_to, data_from)"
  using assms by (simp add: match_up_def get_member_def Let_def)

lemma match_up_absent_segment_raises:
  assumes keys: "path_keys key_to = pre @ k # rest @ [key]"
    and reach: "resolve data_to pre = Some (JDict kvs)"
    and ne: "kvs \<noteq> []" and absent: "map_of kvs k = None"
  shows "\<exists>e. match_up data_to data_from key_to key_from = Inl e"
proof -
  from keys have p: "key_to \<noteq> []" by (auto simp: path_keys_Nil)
  from keys have t: "take (length (path_keys key_to) - 1) (path_keys key_to) = pre @ k # rest"
    and la: "last (path_keys key_to) = key"
    by simp_all
  from last_path_keys [of key_to "pre @ k # rest" key] keys have key: "key \<noteq> []" by simp
  have "descend (JDict kvs) (k # rest) ([] @ pre) = Inr (JNull, pre @ [k])"
    using ne absent by (simp add: dict_get_def descend_falsy)
  with descend_resolve [OF reach, of "k # rest" "[]"]
  have "descend data_to (pre @ k # rest) [] = Inr (JNull, pre @ [k])" by simp
  with p t la have "get_member data_to key_to True = Inr (JNull, Some key, pre @ [k])"
    by (simp add: get_member_def Let_def)
  with key show ?thesis
    by (auto simp: match_up_def split: sum.splits)
qed

text \<open>
  C1. The claim: when an intermediate segment of the target path is absent from the
  mapping reached so far, \<open>match_up\<close> is a silent no-op. The code does not do this.
  With the target \<open>{"x": 1}\<close> and the target path \<open>/a/b\<close>, \<open>get_member\<close>
  returns \<open>(None, 'b')\<close>: the loop is guarded against a missing node, but
  \<open>match_up\<close> tests the key only and assigns into \<open>None\<close>, which raises
  \<open>TypeError\<close>.
\<close>

theorem match_up_missing_parent_raises:
  "match_up (JDict [(''x'', JNum 1)]) (JDict []) ''/a/b'' ''/y'' = Inl TypeError"
  by (simp add: match_up_eval)

text \<open>
  C2. The claim: with target \<open>{}\<close>, source \<open>{"meta": {"href": "/x/1"}}\<close>, target
  path \<open>/link\<close> and source path \<open>/meta/href\<close>, the target is left unchanged. It is
  not: a path of one segment has the target itself as parent, and the call binds
  \<open>link\<close> there.
\<close>

theorem match_up_link_changes_target:
  "match_up (JDict []) (JDict [(''meta'', JDict [(''href'', JStr ''/x/1'')])])
     ''/link'' ''/meta/href''
   \<noteq> Inr (JDict [], JDict [(''meta'', JDict [(''href'', JStr ''/x/1'')])])"
  by (simp add: match_up_eval)

text \<open>
  C2, as amended: the call binds \<open>link\<close> to \<open>"/x/1"\<close> in the target, which
  becomes \<open>{"link": "/x/1"}\<close>; the source is as before.
\<close>

theorem match_up_link_written:
  "match_up (JDict []) (JDict [(''meta'', JDict [(''href'', JStr ''/x/1'')])])
     ''/link'' ''/meta/href''
   = Inr (JDict [(''link'', JStr ''/x/1'')],
          JDict [(''meta'', JDict [(''href'', JStr ''/x/1'')])])"
  by (simp add: match_up_eval)

text \<open>
  C3. The claim: when the parent chain of the target path resolves to a mapping and
  the final segment is not empty, the parent binds the final key to the value the
  source path addresses, or to null when the source path does not fully resolve; the
  source is not changed. As stated it fails: with the source \<open>{"a": {}}\<close> and the
  source path \<open>/a/b\<close>, which does not resolve, the loop stops on the empty mapping
  (it is falsy) and that mapping is written, not null.
\<close>

theorem match_up_unresolved_source_not_null:
  "resolve (JDict []) (butlast (path_keys ''/k'')) = Some (JDict []) \<and>
   last (path_keys ''/k'') \<noteq> [] \<and>
   value_at (JDict [(''a'', JDict [])]) ''/a/b'' = None \<and>
   match_up (JDict []) (JDict [(''a'', JDict [])]) ''/k'' ''/a/b''
     = Inr (JDict [(''k'', JDict [])], JDict [(''a'', JDict [])]) \<and>
   \<not> wrote (match_up (JDict []) (JDict [(''a'', JDict [])]) ''/k'' ''/a/b'')
       (JDict [(''a'', JDict [])]) (butlast (path_keys ''/k'')) (last (path_keys ''/k''))
       (or_null (value_at (JDict [(''a'', JDict [])]) ''/a/b''))"
  by (simp add: match_up_eval value_at_def wrote_def or_null_def)

text \<open>
  C3, as amended: when the parent chain of the target path resolves to a mapping, the
  final segment is not empty, and the source path is empty or its descent only stands
  on non-empty mappings or null while segments are left, then after the call the
  parent binds the final key to the value the source path addresses, or to null when
  it addresses nothing; the source, a document of its own, is as before.
\<close>

theorem match_up_writes_source_value:
  assumes parent: "resolve data_to (butlast (path_keys key_to)) = Some (JDict pkvs)"
    and key: "last (path_keys key_to) \<noteq> []"
    and src: "key_from = [] \<or> stops_clean data_from (path_keys key_from)"
  shows "wrote (match_up data_to data_from key_to key_from) data_from
           (butlast (path_keys key_to)) (last (path_keys key_to))
           (or_null (value_at data_from key_from))"
proof -
  from key have ne: "key_to \<noteq> []" by (auto simp: path_keys_Nil)
  obtain l where g: "get_member data_from key_from False =
      Inr (or_null (value_at data_from key_from), None, l)"
    using get_member_value [OF src] by blast
  show ?thesis
    using key g resolve_put_at [OF parent]
    by (simp add: match_up_def get_member_parent [OF parent ne] wrote_def map_of_dict_set)
qed

theorem match_up_writes_source_value_witness:
  "resolve (JDict [(''a'', JDict [(''b'', JNum 1)])]) (butlast (path_keys ''/a/c''))
     = Some (JDict [(''b'', JNum 1)]) \<and>
   last (path_keys ''/a/c'') \<noteq> [] \<and>
   stops_clean (JDict [(''m'', JDict [(''n'', JNum 5)])]) (path_keys ''/m/n'') \<and>
   wrote (match_up (JDict [(''a'', JDict [(''b'', JNum 1)])])
            (JDict [(''m'', JDict [(''n'', JNum 5)])]) ''/a/c'' ''/m/n'')
     (JDict [(''m'', JDict [(''n'', JNum 5)])]) [''a''] ''c'' (JNum 5) \<and>
   stops_clean (JDict [(''m'', JDict [(''n'', JNum 5)])]) (path_keys ''/m/x/y'') \<and>
   wrote (match_up (JDict [(''a'', JDict [(''b'', JNum 1)])])
            (JDict [(''m'', JDict [(''n'', JNum 5)])]) ''/a/c'' ''/m/x/y'')
     (JDict [(''m'', JDict [(''n'', JNum 5)])]) [''a''] ''c'' JNull"
proof -
  let ?t = "JDict [(''a'', JDict [(''b'', JNum 1)])]"
  let ?s = "JDict [(''m'', JDict [(''n'', JNum 5)])]"
  have h1: "resolve ?t (butlast (path_keys ''/a/c'')) = Some (JDict [(''b'', JNum 1)])"
    by (simp add: path_eval)
  have h2: "last (path_keys ''/a/c'') \<noteq> []"
    by (simp add: path_eval)
  have h3: "stops_clean ?s (path_keys ''/m/n'')"
    by (simp add: path_eval)
  have h4: "stops_clean ?s (path_keys ''/m/x/y'')"
    by (simp add: path_eval)
  have "wrote (match_up ?t ?s ''/a/c'' ''/m/n'') ?s (butlast (path_keys ''/a/c''))
     (last (path_keys ''/a/c'')) (or_null (value_at ?s ''/m/n''))"
    using h3 by (intro match_up_writes_source_value [OF h1 h2]) simp
  then have w1: "wrote (match_up ?t ?s ''/a/c'' ''/m/n'') ?s [''a''] ''c'' (JNum 5)"
    by (simp add: path_eval value_at_def or_null_def)
  have "wrote (match_up ?t ?s ''/a/c'' ''/m/x/y'') ?s (butlast (path_keys ''/a/c''))
     (last (path_keys ''/a/c'')) (or_null (value_at ?s ''/m/x/y''))"
    using h4 by (intro match_up_writes_source_value [OF h1 h2]) simp
  then have w2: "wrote (match_up ?t ?s ''/a/c'' ''/m/x/y'') ?s [''a''] ''c'' JNull"
    by (simp add: path_eval value_at_def or_null_def)
  from h1 h2 h3 h4 w1 w2 show ?thesis by blast
qed

text \<open>
  C9. When the descent along the target path reaches an empty mapping while
  intermediate segments are still left, the loop stops there (the mapping is falsy)
  and the final key is written into that mapping; the segments left are skipped. With
  the target \<open>{"a": {}}\<close> and the path \<open>/a/b/c\<close>, the key \<open>c\<close> is bound in
  \<open>target["a"]\<close> and there is no \<open>b\<close> level.
\<close>

theorem match_up_stops_at_empty_mapping:
  assumes keys: "path_keys key_to = pre @ mid @ [key]"
    and mid: "mid \<noteq> []"
    and reach: "resolve data_to pre = Some (JDict [])"
    and src: "get_member data_from key_from False = Inr (v, mk, l)"
  shows "match_up data_to data_from key_to key_from =
           Inr (put_at data_to pre (JDict [(key, v)]), data_from) \<and>
         resolve (put_at data_to pre (JDict [(key, v)])) pre = Some (JDict [(key, v)])"
proof -
  from keys mid have ne: "key_to \<noteq> []"
    by (cases mid) (auto simp: path_keys_Nil)
  from last_path_keys [of key_to "pre @ mid" key] keys mid have key: "key \<noteq> []"
    by simp
  from keys have t: "take (length (path_keys key_to) - 1) (path_keys key_to) = pre @ mid"
    and la: "last (path_keys key_to) = key"
    by simp_all
  from mid have "descend (JDict []) mid ([] @ pre) = Inr (JDict [], pre)"
    by (simp add: descend_falsy)
  with descend_resolve [OF reach, of mid "[]"]
  have d: "descend data_to (pre @ mid) [] = Inr (JDict [], pre)"
    by simp
  have "get_member data_to key_to True = Inr (JDict [], Some key, pre)"
    using ne t la d by (simp add: get_member_def Let_def)
  with key src resolve_put_at [OF reach] show ?thesis
    by (simp add: match_up_def dict_set_def)
qed

theorem match_up_stops_at_empty_mapping_witness:
  "match_up (JDict [(''a'', JDict [])]) (JDict [(''v'', JNum 7)]) ''/a/b/c'' ''/v''
     = Inr (JDict [(''a'', JDict [(''c'', JNum 7)])], JDict [(''v'', JNum 7)])"
proof -
  have h1: "path_keys ''/a/b/c'' = [''a''] @ [''b''] @ [''c'']"
    by (simp add: path_eval)
  have h2: "resolve (JDict [(''a'', JDict [])]) [''a''] = Some (JDict [])"
    by simp
  have h3: "get_member (JDict [(''v'', JNum 7)]) ''/v'' False = Inr (JNum 7, None, [''v''])"
    by (simp add: get_member_def path_eval dict_get_def)
  from match_up_stops_at_empty_mapping [OF h1 _ h2 h3] show ?thesis
    by (simp add: dict_set_def)
qed

section \<open>Claims about match\_up\_extra\<close>

lemma map_of_dict_set_fun: "map_of (dict_set k v kvs) = (map_of kvs)(k \<mapsto> v)"
  by (simp add: dict_set_def update_conv')

lemma match_up_extra_loop_dict:
  "match_up_extra_loop (JDict t) (JDict s) excl (map JStr ks) = Inr (JDict (copied s excl ks t))"
  by (induction ks arbitrary: t) (simp_all add: copied_def)

lemma map_of_copied:
  "map_of (copied s excl ks t) k =
     (if k \<in> set ks \<and> k \<notin> set excl then Some (dict_get s k) else map_of t k)"
  by (induction ks arbitrary: t) (simp_all add: copied_def map_of_dict_set_fun)

lemma dict_get_key: "k \<in> fst ` set s \<Longrightarrow> Some (dict_get s k) = map_of s k"
  by (auto simp: dict_get_def map_of_eq_None_iff split: option.splits)

text \<open>
  C8. For every target and source mapping and every collection of excluded names,
  \<open>match_up_extra\<close> returns, and afterwards the target binds every top-level name
  of the source that is not excluded to the value the source binds it to, and binds
  every excluded name as it did before the call.
\<close>

theorem match_up_extra_copies:
  "\<exists>tkvs'. match_up_extra (JDict tkvs) (JDict skvs) excl = Inr (JDict tkvs') \<and>
      (\<forall>k. k \<in> fst ` set skvs \<and> k \<notin> set excl \<longrightarrow> map_of tkvs' k = map_of skvs k) \<and>
      (\<forall>k. k \<in> set excl \<longrightarrow> map_of tkvs' k = map_of tkvs k)"
proof -
  have "map (\<lambda>kv. JStr (fst kv)) skvs = map JStr (map fst skvs)"
    by simp
  then have "match_up_extra (JDict tkvs) (JDict skvs) excl =
      Inr (JDict (copied skvs excl (map fst skvs) tkvs))"
    by (simp add: match_up_extra_def match_up_extra_loop_dict del: map_map)
  then show ?thesis
    by (auto simp: map_of_copied dict_get_key)
qed

theorem match_up_extra_copies_witness:
  "\<exists>tkvs'. match_up_extra (JDict [(''a'', JNum 1), (''z'', JNum 9)])
        (JDict [(''a'', JNum 5), (''b'', JDict [(''c'', JNum 6)]), (''z'', JNum 7)]) [''z'']
      = Inr (JDict tkvs') \<and>
      map_of tkvs' ''a'' = Some (JNum 5) \<and>
      map_of tkvs' ''b'' = Some (JDict [(''c'', JNum 6)]) \<and>
      map_of tkvs' ''z'' = Some (JNum 9)"
proof -
  let ?t = "[(''a'', JNum 1), (''z'', JNum 9)]"
  let ?s = "[(''a'', JNum 5), (''b'', JDict [(''c'', JNum 6)]), (''z'', JNum 7)]"
  obtain tkvs' where r: "match_up_extra (JDict ?t) (JDict ?s) [''z''] = Inr (JDict tkvs')"
    and c: "\<forall>k. k \<in> fst ` set ?s \<and> k \<notin> set [''z''] \<longrightarrow> map_of tkvs' k = map_of ?s k"
    and e: "\<forall>k. k \<in> set [''z''] \<longrightarrow> map_of tkvs' k = map_of ?t k"
    using match_up_extra_copies [of ?t ?s "[''z'']"] by blast
  from c have "map_of tkvs' ''a'' = map_of ?s ''a''" by simp
  moreover from c have "map_of tkvs' ''b'' = map_of ?s ''b''" by simp
  moreover from e have "map_of tkvs' ''z'' = map_of ?t ''z''" by simp
  ultimately show ?thesis using r by simp
qed

section \<open>Claims about has\_extra\<close>

lemma has_extra_loop_shaped:
  assumes IH: "\<And>k e'. map_of ex k = Some e' \<Longrightarrow> truthy e' \<Longrightarrow> shaped (dict_get kvs k) e' \<Longrightarrow>
                 has_extra (dict_get kvs k) e' = Inr (\<not> accounted (dict_get kvs k) e')"
    and sh: "\<forall>k\<in>set names. case map_of ex k of None \<Rightarrow> True
               | Some e' \<Rightarrow> truthy e' \<longrightarrow> shaped (dict_get kvs k) e'"
  shows "has_extra_loop (JDict kvs) (JDict ex) (map JStr names) =
           Inr (\<not> (\<forall>k\<in>set names. case map_of ex k of None \<Rightarrow> False
               | Some e' \<Rightarrow> truthy e' \<longrightarrow> accounted (dict_get kvs k) e'))"
  using sh
proof (induction names)
  case Nil
  then show ?case by simp
next
  case (Cons k names)
  show ?case
  proof (cases "map_of ex k")
    case None
    then show ?thesis by simp
  next
    case (Some e')
    show ?thesis
    proof (cases "truthy e'")
      case True
      with Some Cons.prems have "shaped (dict_get kvs k) e'" by simp
      from IH [OF Some True this] Some True Cons show ?thesis
        by simp
    next
      case False
      with Some Cons show ?thesis by simp
    qed
  qed
qed

lemma has_extra_shaped: "shaped d e \<Longrightarrow> has_extra d e = Inr (\<not> accounted d e)"
proof (induction "size e" arbitrary: d e rule: less_induct)
  case less
  from less.prems obtain kvs ex where d: "d = JDict kvs" and e: "e = JDict ex"
    by (cases d; cases e) auto
  have "has_extra_loop (JDict kvs) (JDict ex) (map JStr (map fst kvs)) =
           Inr (\<not> (\<forall>k\<in>set (map fst kvs). case map_of ex k of None \<Rightarrow> False
               | Some e' \<Rightarrow> truthy e' \<longrightarrow> accounted (dict_get kvs k) e'))"
  proof (rule has_extra_loop_shaped)
    fix k e'
    assume "map_of ex k = Some e'" "truthy e'" "shaped (dict_get kvs k) e'"
    then show "has_extra (dict_get kvs k) e' = Inr (\<not> accounted (dict_get kvs k) e')"
      using less.hyps [of e' "dict_get kvs k"] e size_map_of [of ex k e'] by simp
  next
    from less.prems d e
    show "\<forall>k\<in>set (map fst kvs). case map_of ex k of None \<Rightarrow> True
               | Some e' \<Rightarrow> truthy e' \<longrightarrow> shaped (dict_get kvs k) e'"
      by simp
  qed
  with d e show ?case
    by (simp add: has_extra.simps comp_def)
qed

lemmas has_extra_eval = has_extra.simps dict_get_def

text \<open>
  C4. The claim: \<open>has_extra\<close> returns false if and only if every attribute name,
  at every level visited, is in the exclusion set at that level, where the level below
  an attribute is visited exactly when its entry is a non-null nested set. As stated
  it fails in both directions. With the source \<open>{"b": {"y": 2}}\<close> and the set
  \<open>{"b": {}}\<close> the entry of \<open>b\<close> is a nested set that does not hold \<open>y\<close>,
  yet the result is false: the empty set is falsy and is not entered. With the source
  \<open>{"b": 5}\<close> and the set \<open>{"b": {"c": null}}\<close> every attribute name is accounted
  for, yet the call does not return false: iterating over \<open>5\<close> raises
  \<open>TypeError\<close>.
\<close>

theorem has_extra_not_iff_accounted_spec:
  "has_extra (JDict [(''b'', JDict [(''y'', JNum 2)])]) (JDict [(''b'', JDict [])]) = Inr False \<and>
   \<not> accounted_spec (JDict [(''b'', JDict [(''y'', JNum 2)])]) (JDict [(''b'', JDict [])]) \<and>
   accounted_spec (JDict [(''b'', JNum 5)]) (JDict [(''b'', JDict [(''c'', JNull)])]) \<and>
   has_extra (JDict [(''b'', JNum 5)]) (JDict [(''b'', JDict [(''c'', JNull)])]) = Inl TypeError"
  by (simp add: has_extra_eval)

text \<open>
  C4, as amended: for a source of the shape the exclusion set expects,
  \<open>has_extra\<close> returns, and it returns false if and only if every attribute name,
  at every level visited, is in the exclusion set at that level, where the level below
  an attribute is visited exactly when its entry is a nested set that is not empty.
  The two examples of the claim hold: \<open>{"a": 1, "b": {"c": 2}}\<close> against
  \<open>{"a": null, "b": {"c": null}}\<close> gives false, \<open>{"a": 1, "x": 2}\<close> gives true.
\<close>

theorem has_extra_false_iff_accounted:
  "(shaped data_from keys_to_exclude \<longrightarrow>
      (\<exists>found. has_extra data_from keys_to_exclude = Inr found) \<and>
      (has_extra data_from keys_to_exclude = Inr False) = accounted data_from keys_to_exclude) \<and>
   has_extra (JDict [(''a'', JNum 1), (''b'', JDict [(''c'', JNum 2)])])
     (JDict [(''a'', JNull), (''b'', JDict [(''c'', JNull)])]) = Inr False \<and>
   has_extra (JDict [(''a'', JNum 1), (''x'', JNum 2)])
     (JDict [(''a'', JNull), (''b'', JDict [(''c'', JNull)])]) = Inr True"
proof -
  have "shaped data_from keys_to_exclude \<longrightarrow>
      (\<exists>found. has_extra data_from keys_to_exclude = Inr found) \<and>
      (has_extra data_from keys_to_exclude = Inr False) = accounted data_from keys_to_exclude"
    by (auto dest: has_extra_shaped)
  moreover have "has_extra (JDict [(''a'', JNum 1), (''b'', JDict [(''c'', JNum 2)])])
     (JDict [(''a'', JNull), (''b'', JDict [(''c'', JNull)])]) = Inr False"
    by (simp add: has_extra_eval)
  moreover have "has_extra (JDict [(''a'', JNum 1), (''x'', JNum 2)])
     (JDict [(''a'', JNull), (''b'', JDict [(''c'', JNull)])]) = Inr True"
    by (simp add: has_extra_eval)
  ultimately show ?thesis by blast
qed

theorem has_extra_false_iff_accounted_witness:
  "shaped (JDict [(''a'', JNum 1), (''b'', JDict [(''c'', JNum 2), (''d'', JNum 3)])])
     (JDict [(''a'', JNull), (''b'', JDict [(''c'', JNull)])]) \<and>
   \<not> accounted (JDict [(''a'', JNum 1), (''b'', JDict [(''c'', JNum 2), (''d'', JNum 3)])])
     (JDict [(''a'', JNull), (''b'', JDict [(''c'', JNull)])]) \<and>
   has_extra (JDict [(''a'', JNum 1), (''b'', JDict [(''c'', JNum 2), (''d'', JNum 3)])])
     (JDict [(''a'', JNull), (''b'', JDict [(''c'', JNull)])]) = Inr True"
proof -
  let ?d = "JDict [(''a'', JNum 1), (''b'', JDict [(''c'', JNum 2), (''d'', JNum 3)])]"
  let ?e = "JDict [(''a'', JNull), (''b'', JDict [(''c'', JNull)])]"
  have sh: "shaped ?d ?e"
    by (simp add: dict_get_def)
  have na: "\<not> accounted ?d ?e"
    by (simp add: dict_get_def)
  from has_extra_false_iff_accounted [of ?d ?e] sh
  obtain found where f: "has_extra ?d ?e = Inr found"
    and iff: "(has_extra ?d ?e = Inr False) = accounted ?d ?e"
    by blast
  from f iff na have "has_extra ?d ?e = Inr True"
    by (cases found) simp_all
  with sh na show ?thesis by blast
qed

lemma has_extra_loop_skip:
  assumes "map_of ex k = Some f" and "\<not> truthy f"
  shows "has_extra_loop d (JDict ex) (ks1 @ JStr k # ks2) =
           has_extra_loop d (JDict ex) (ks1 @ ks2)"
  using assms
  by (induction ks1) (auto split: json.splits option.splits sum.splits)

lemma has_extra_loop_cong:
  assumes "\<And>k e. JStr k \<in> set ks \<Longrightarrow> map_of ex k = Some e \<Longrightarrow> truthy e \<Longrightarrow>
             py_get d (JStr k) = py_get d' (JStr k)"
  shows "has_extra_loop d (JDict ex) ks = has_extra_loop d' (JDict ex) ks"
  using assms
proof (induction ks)
  case Nil
  then show ?case by simp
next
  case (Cons key ks)
  have "has_extra_loop d (JDict ex) ks = has_extra_loop d' (JDict ex) ks"
    using Cons.prems by (intro Cons.IH) auto
  moreover have "\<And>k e. key = JStr k \<Longrightarrow> map_of ex k = Some e \<Longrightarrow> truthy e \<Longrightarrow>
             py_get d key = py_get d' key"
    using Cons.prems by auto
  ultimately show ?case
    by (auto split: json.splits option.splits sum.splits)
qed

text \<open>
  C10. An attribute whose entry in the exclusion set is falsy (null, an empty mapping,
  an empty string, 0 or false) is fully excluded: \<open>has_extra\<close> gives the same
  result, or raises the same exception, as for the source without that attribute,
  whatever the attribute's value is. The value is never entered and nothing below it
  is reported. So \<open>has_extra({"a": {"x": 1}}, {"a": {}})\<close> is false.
\<close>

theorem has_extra_falsy_entry_excluded:
  assumes "map_of ex k = Some f" and "\<not> truthy f"
  shows "has_extra (JDict (pre @ (k, v) # post)) (JDict ex) =
           has_extra (JDict (pre @ post)) (JDict ex)"
proof -
  let ?ks1 = "map (\<lambda>kv. JStr (fst kv)) pre" and ?ks2 = "map (\<lambda>kv. JStr (fst kv)) post"
  have "has_extra (JDict (pre @ (k, v) # post)) (JDict ex) =
          has_extra_loop (JDict (pre @ (k, v) # post)) (JDict ex) (?ks1 @ JStr k # ?ks2)"
    by (simp add: has_extra.simps)
  also have "\<dots> = has_extra_loop (JDict (pre @ (k, v) # post)) (JDict ex) (?ks1 @ ?ks2)"
    using assms by (rule has_extra_loop_skip)
  also have "\<dots> = has_extra_loop (JDict (pre @ post)) (JDict ex) (?ks1 @ ?ks2)"
  proof (rule has_extra_loop_cong)
    fix k' e
    assume "map_of ex k' = Some e" "truthy e"
    with assms have "k' \<noteq> k" by auto
    then show "py_get (JDict (pre @ (k, v) # post)) (JStr k') =
        py_get (JDict (pre @ post)) (JStr k')"
      by (simp add: dict_get_def map_add_def split: option.splits)
  qed
  also have "\<dots> = has_extra (JDict (pre @ post)) (JDict ex)"
    by (simp add: has_extra.simps)
  finally show ?thesis .
qed

theorem has_extra_falsy_entry_excluded_witness:
  "map_of [(''a'', JDict [])] ''a'' = Some (JDict []) \<and> \<not> truthy (JDict []) \<and>
   has_extra (JDict [(''a'', JDict [(''x'', JNum 1)])]) (JDict [(''a'', JDict [])]) = Inr False"
proof -
  have h1: "map_of [(''a'', JDict [])] ''a'' = Some (JDict [])" by simp
  have h2: "\<not> truthy (JDict [])" by simp
  have "has_extra (JDict ([] @ (''a'', JDict [(''x'', JNum 1)]) # [])) (JDict [(''a'', JDict [])]) =
          has_extra (JDict ([] @ [])) (JDict [(''a'', JDict [])])"
    using h1 h2 by (rule has_extra_falsy_entry_excluded)
  then have "has_extra (JDict [(''a'', JDict [(''x'', JNum 1)])]) (JDict [(''a'', JDict [])]) = Inr False"
    by (simp add: has_extra.simps)
  with h1 h2 show ?thesis by blast
qed

section \<open>Claims about remove\_member\<close>






section \<open>Claims about access\_resource\<close>

lemma py_int_Nil: "py_int [] = None"
  by (simp add: py_int_def)

lemma map_of_update_fold:
  "map_of (fold (\<lambda>h acc. AList.update (fst h) (snd h) acc) hs acc) x =
     (map_of acc ++ map_of (rev hs)) x"
proof (induction hs arbitrary: acc)
  case Nil
  then show ?case by simp
next
  case (Cons h hs)
  show ?case
    by (cases h) (simp add: Cons.IH update_conv' map_add_def split: option.splits)
qed

lemma map_of_collect_headers: "map_of (collect_headers hs) = map_of (rev hs)"
  by (rule ext) (simp add: collect_headers_def map_of_update_fold)

text \<open>
  C6. When the backend answers with status 404 or 413, \<open>access_resource\<close> returns
  exactly \<open>(False, {}, None, status)\<close> and never reads the body of the response,
  whether or not \<open>get_body\<close> is set.
\<close>

theorem access_resource_not_found:
  assumes "backend (build_request env method path body) = Inr res"
    and "status res = 404 \<or> status res = 413"
  shows "access_resource backend env method path get_body query_string body =
           Inr ((False, [], None, status res), \<lparr>closed = True, reads = []\<rparr>)"
  using assms by (simp add: access_resource_def)

theorem access_resource_not_found_witness:
  "access_resource
     (\<lambda>rq. Inr \<lparr>status = 404, msg = [(''content-length'', ''9'')], stream = ''not found''\<rparr>)
     \<lparr>scheme = ''http'', server_name = ''host'', server_port = ''8774'',
       env_path = ''/servers/1'', env_headers = []\<rparr> ''GET'' [] True None None
   = Inr ((False, [], None, 404), \<lparr>closed = True, reads = []\<rparr>)"
  using access_resource_not_found
    [of "\<lambda>rq. Inr \<lparr>status = 404, msg = [(''content-length'', ''9'')], stream = ''not found''\<rparr>"
      "\<lparr>scheme = ''http'', server_name = ''host'', server_port = ''8774'',
        env_path = ''/servers/1'', env_headers = []\<rparr>" "''GET''" "[]" None
      "\<lparr>status = 404, msg = [(''content-length'', ''9'')], stream = ''not found''\<rparr>" True None]
  by simp

text \<open>
  C7. The claim: whenever the backend answers with status 200, 201 or 204,
  \<open>access_resource\<close> returns \<open>(True, headers, body, status)\<close>; with
  \<open>get_body\<close> set and a \<open>content-length\<close> header of \<open>n\<close> the body is
  exactly \<open>n\<close> bytes read from the response; without \<open>get_body\<close> it is the
  empty string. As stated it fails twice. A status 200 with the header
  \<open>content-length: abc\<close> and \<open>get_body\<close> set does not return: \<open>int(length)\<close>
  raises \<open>ValueError\<close>, which nothing catches. And a status 200 with
  \<open>content-length: 5\<close> whose body delivers the two bytes \<open>hi\<close> returns a body
  of two bytes, not five: \<open>res.read(5)\<close> gives what there is.
\<close>

theorem access_resource_success_not_always:
  "access_resource
     (\<lambda>rq. Inr \<lparr>status = 200, msg = [(''content-length'', ''abc'')], stream = ''hello''\<rparr>)
     \<lparr>scheme = ''http'', server_name = ''host'', server_port = ''8774'',
       env_path = ''/servers/1'', env_headers = []\<rparr> ''GET'' [] True None None
   = Inl ValueError \<and>
   access_resource
     (\<lambda>rq. Inr \<lparr>status = 200, msg = [(''content-length'', ''5'')], stream = ''hi''\<rparr>)
     \<lparr>scheme = ''http'', server_name = ''host'', server_port = ''8774'',
       env_path = ''/servers/1'', env_headers = []\<rparr> ''GET'' [] True None None
   = Inr ((True, [(''content-length'', ''5'')], Some ''hi'', 200),
          \<lparr>closed = True, reads = [Some 5]\<rparr>) \<and>
   length ''hi'' \<noteq> 5"
  by (simp add: access_resource_def collect_headers_def py_int_def is_space_def digit_val_def
      read_amt_def)

text \<open>
  C7, as amended: when the backend answers with status 200, 201 or 204 and, if
  \<open>get_body\<close> is set, the \<open>content-length\<close> header is absent, empty or reads
  as an integer, \<open>access_resource\<close> returns \<open>(True, headers, body, status)\<close>,
  where \<open>headers\<close> binds every header name of the response to its value. With
  \<open>get_body\<close> set and a \<open>content-length\<close> header that reads as the number
  \<open>n\<close>, the body is the result of the one call \<open>res.read(n)\<close>: the first
  \<open>n\<close> bytes of the response body, which are \<open>n\<close> bytes when the response
  delivers that many and all of its bytes otherwise. With \<open>get_body\<close> set and no
  such header, or an empty one, the whole body is read. Without \<open>get_body\<close> the
  body is the empty string (not \<open>None\<close>) and nothing is read.
\<close>

theorem access_resource_success:
  assumes b: "backend (build_request env method path body) = Inr res"
    and st: "status res = 200 \<or> status res = 201 \<or> status res = 204"
  shows "((get_body \<longrightarrow> length_readable res) \<longrightarrow>
            (\<exists>bytes log. access_resource backend env method path get_body query_string body =
               Inr ((True, collect_headers (msg res), Some bytes, status res), log))) \<and>
         (get_body \<and> map_of (msg res) ''content-length'' = Some s \<and> py_int s = Some (int n) \<longrightarrow>
            access_resource backend env method path get_body query_string body =
              Inr ((True, collect_headers (msg res), Some (take n (stream res)), status res),
                   \<lparr>closed = True, reads = [Some (int n)]\<rparr>) \<and>
            length (take n (stream res)) = min n (length (stream res))) \<and>
         (get_body \<and> map_of (msg res) ''content-length'' \<in> {None, Some []} \<longrightarrow>
            access_resource backend env method path get_body query_string body =
              Inr ((True, collect_headers (msg res), Some (stream res), status res),
                   \<lparr>closed = True, reads = [None]\<rparr>)) \<and>
         (\<not> get_body \<longrightarrow>
            access_resource backend env method path get_body query_string body =
              Inr ((True, collect_headers (msg res), Some [], status res),
                   \<lparr>closed = True, reads = []\<rparr>)) \<and>
         map_of (collect_headers (msg res)) = map_of (rev (msg res))"
proof -
  have ne: "status res \<noteq> 404 \<and> status res \<noteq> 413" using st by auto
  have ok: "status res = 200 \<or> status res = 204 \<or> status res = 201" using st by blast
  have r: "(get_body \<longrightarrow> length_readable res) \<longrightarrow>
            (\<exists>bytes log. access_resource backend env method path get_body query_string body =
               Inr ((True, collect_headers (msg res), Some bytes, status res), log))"
    using b ok ne
    by (auto simp: access_resource_def Let_def length_readable_def split: option.splits)
  have a: "get_body \<and> map_of (msg res) ''content-length'' = Some s \<and> py_int s = Some (int n) \<longrightarrow>
            access_resource backend env method path get_body query_string body =
              Inr ((True, collect_headers (msg res), Some (take n (stream res)), status res),
                   \<lparr>closed = True, reads = [Some (int n)]\<rparr>)"
  proof (intro impI, elim conjE)
    assume g: get_body and h: "map_of (msg res) ''content-length'' = Some s"
      and p: "py_int s = Some (int n)"
    from p have "s \<noteq> []" by (auto simp: py_int_Nil)
    with b ok ne g h p
    show "access_resource backend env method path get_body query_string body =
              Inr ((True, collect_headers (msg res), Some (take n (stream res)), status res),
                   \<lparr>closed = True, reads = [Some (int n)]\<rparr>)"
      by (simp add: access_resource_def read_amt_def Let_def)
  qed
  have c: "get_body \<and> map_of (msg res) ''content-length'' \<in> {None, Some []} \<longrightarrow>
            access_resource backend env method path get_body query_string body =
              Inr ((True, collect_headers (msg res), Some (stream res), status res),
                   \<lparr>closed = True, reads = [None]\<rparr>)"
    using b ok ne by (auto simp: access_resource_def Let_def)
  have d: "\<not> get_body \<longrightarrow>
            access_resource backend env method path get_body query_string body =
              Inr ((True, collect_headers (msg res), Some [], status res),
                   \<lparr>closed = True, reads = []\<rparr>)"
    using b ok ne by (auto simp: access_resource_def Let_def)
  have e: "length (take n (stream res)) = min n (length (stream res))"
    by simp
  have f: "map_of (collect_headers (msg res)) = map_of (rev (msg res))"
    by (rule map_of_collect_headers)
  from r a c d e f show ?thesis
    by blast
qed

theorem access_resource_success_witness:
  "length_readable \<lparr>status = 200, msg = [(''content-length'', ''5''), (''etag'', ''x'')],
                    stream = ''hello world''\<rparr> \<and>
   access_resource
     (\<lambda>rq. Inr \<lparr>status = 200, msg = [(''content-length'', ''5''), (''etag'', ''x'')],
                 stream = ''hello world''\<rparr>)
     \<lparr>scheme = ''http'', server_name = ''host'', server_port = ''8774'',
       env_path = ''/servers/1'', env_headers = []\<rparr> ''GET'' [] True None None
   = Inr ((True, [(''content-length'', ''5''), (''etag'', ''x'')], Some ''hello'', 200),
          \<lparr>closed = True, reads = [Some 5]\<rparr>) \<and>
   length ''hello'' = 5"
proof -
  have p: "py_int ''5'' = Some (int 5)"
    by (simp add: py_int_def is_space_def digit_val_def)
  then have lr: "length_readable \<lparr>status = 200,
      msg = [(''content-length'', ''5''), (''etag'', ''x'')], stream = ''hello world''\<rparr>"
    by (simp add: length_readable_def)
  from access_resource_success
    [of "\<lambda>rq. Inr \<lparr>status = 200, msg = [(''content-length'', ''5''), (''etag'', ''x'')],
                    stream = ''hello world''\<rparr>"
      "\<lparr>scheme = ''http'', server_name = ''host'', server_port = ''8774'',
        env_path = ''/servers/1'', env_headers = []\<rparr>" "''GET''" "[]" None
      "\<lparr>status = 200, msg = [(''content-length'', ''5''), (''etag'', ''x'')],
        stream = ''hello world''\<rparr>" True None "''5''" 5] p lr
  show ?thesis
    by (simp add: collect_headers_def)
qed

end
